theory Spec2Isabelle
  imports
    Main
    "HOL-Library.Char_ord"
    "HOL-Library.List_Lexorder"
    "HOL-Library.Product_Lexorder"
    "HOL-Library.Sublist"
    "HOL-Library.Multiset"
begin

section \<open>Python string primitives used by news_agent.py\<close>

text \<open>
  A Python \<^verbatim>\<open>str\<close> is modelled as a \<^typ>\<open>string\<close>: a list of characters, each
  read as a code point in the range 0..255. On that range \<^verbatim>\<open>str.isspace\<close>, the
  regular-expression class \<^verbatim>\<open>\s\<close> and \<^verbatim>\<open>str.strip()\<close> agree on the whitespace
  characters 9..13, 28..32, 133 and 160, and \<^verbatim>\<open>str.lower()\<close> maps A..Z and the
  upper-case letters 192..222 (without the multiplication sign 215) 32 places up.
  Strings are compared as Python compares them: lexicographically by code point,
  a proper prefix being smaller.
\<close>

definition isspace :: "char \<Rightarrow> bool" where
  "isspace c =
     (let n = (of_char c :: nat)
      in (9 \<le> n \<and> n \<le> 13) \<or> (28 \<le> n \<and> n \<le> 32) \<or> n = 133 \<or> n = 160)"

definition lower_char :: "char \<Rightarrow> char" where
  "lower_char c =
     (let n = (of_char c :: nat)
      in if (65 \<le> n \<and> n \<le> 90) \<or> (192 \<le> n \<and> n \<le> 222 \<and> n \<noteq> 215)
         then char_of (n + 32) else c)"

definition lower :: "string \<Rightarrow> string" where
  "lower s = map lower_char s"

definition strip :: "string \<Rightarrow> string" where
  "strip s = rev (dropWhile isspace (rev (dropWhile isspace s)))"

fun join :: "string \<Rightarrow> string list \<Rightarrow> string" where
  "join sep [] = []"
| "join sep [x] = x"
| "join sep (x # y # ys) = x @ sep @ join sep (y # ys)"

text \<open>The slice \<^verbatim>\<open>xs[:n]\<close>: a negative \<open>n\<close> counts from the end.\<close>

definition slice_to :: "int \<Rightarrow> 'a list \<Rightarrow> 'a list" where
  "slice_to n xs = (if 0 \<le> n then take (nat n) xs else take (length xs - nat (- n)) xs)"

text \<open>
  \<^verbatim>\<open>sorted(xs, reverse=True)\<close> on a list of (int, str) tuples: CPython reverses the
  list, sorts it stably in ascending tuple order and reverses the result.
\<close>

definition sorted_reverse :: "(int \<times> string) list \<Rightarrow> (int \<times> string) list" where
  "sorted_reverse xs = rev (sort (rev xs))"

text \<open>
  \<^verbatim>\<open>Counter(words)\<close> counts each word; \<^verbatim>\<open>freq[w]\<close> on a Counter is 0 for a word
  that was never counted.
\<close>

definition Counter :: "string list \<Rightarrow> (string \<rightharpoonup> int)" where
  "Counter ws = fold (\<lambda>w m. m(w \<mapsto> (case m w of None \<Rightarrow> 1 | Some n \<Rightarrow> n + 1))) ws Map.empty"

definition counter_get :: "(string \<rightharpoonup> int) \<Rightarrow> string \<Rightarrow> int" where
  "counter_get m w = (case m w of None \<Rightarrow> 0 | Some n \<Rightarrow> n)"

section \<open>Word sets\<close>

definition STOPWORDS :: "string set" where
  "STOPWORDS = set
     [''a'', ''an'', ''the'', ''and'', ''or'', ''but'', ''if'', ''while'', ''of'', ''to'',
      ''in'', ''on'', ''for'', ''with'', ''without'', ''by'', ''as'', ''is'', ''are'',
      ''was'', ''were'', ''be'', ''been'',
      ''this'', ''that'', ''these'', ''those'', ''from'', ''at'', ''it'', ''its'', ''into'',
      ''over'', ''under'', ''about'', ''after'', ''before'', ''between'', ''not'', ''no'',
      ''you'', ''your'', ''we'', ''our'', ''they'', ''their'', ''i'', ''me'', ''my'', ''us'',
      ''he'', ''she'', ''him'', ''her'', ''them'', ''his'', ''hers'', ''ours'', ''theirs'']"

definition POS_WORDS :: "string set" where
  "POS_WORDS = set
     [''beat'', ''beats'', ''growth'', ''strong'', ''stronger'', ''surge'', ''surges'',
      ''record'', ''optimistic'', ''upgrade'', ''upgraded'', ''buy'', ''outperform'']"

definition NEG_WORDS :: "string set" where
  "NEG_WORDS = set
     [''miss'', ''misses'', ''decline'', ''weak'', ''weaker'', ''plunge'', ''plunges'',
      ''downgrade'', ''downgraded'', ''sell'', ''underperform'']"

section \<open>normalize_text\<close>

text \<open>
  \<^verbatim>\<open>re.sub(r"\s+", " ", s)\<close>: scanning from the left, every match of \<^verbatim>\<open>\s+\<close> takes
  all the whitespace that follows and is replaced by one space.
\<close>

function sub_ws :: "string \<Rightarrow> string" where
  "sub_ws [] = []"
| "sub_ws (c # cs) =
     (if isspace c then CHR '' '' # sub_ws (dropWhile isspace cs) else c # sub_ws cs)"
  by pat_completeness auto
termination
  by (relation "measure length") (auto simp: le_imp_less_Suc length_dropWhile_le)

text \<open>\<^verbatim>\<open>text or ""\<close>: an absent text (\<^verbatim>\<open>None\<close>) is read as the empty string.\<close>

definition normalize_text :: "string option \<Rightarrow> string" where
  "normalize_text text = strip (sub_ws (case text of None \<Rightarrow> [] | Some s \<Rightarrow> s))"

section \<open>dedupe\<close>

text \<open>
  A feed item is a dictionary from field names to strings. \<^verbatim>\<open>it.get(k)\<close> is
  \<^verbatim>\<open>None\<close> for a missing field, and \<^verbatim>\<open>a or b\<close> is \<open>b\<close> when \<open>a\<close> is \<^verbatim>\<open>None\<close> or empty.
\<close>

type_synonym item = "string \<rightharpoonup> string"

definition item_key :: "item \<Rightarrow> string option" where
  "item_key it =
     (case it ''link'' of
        None \<Rightarrow> it ''title''
      | Some l \<Rightarrow> if l \<noteq> [] then Some l else it ''title'')"

fun dedupe_loop :: "string option set \<Rightarrow> item list \<Rightarrow> item list \<Rightarrow> item list" where
  "dedupe_loop seen out [] = out"
| "dedupe_loop seen out (it # items) =
     (let key = item_key it
      in if key \<in> seen then dedupe_loop seen out items
         else dedupe_loop (insert key seen) (out @ [it]) items)"

definition dedupe :: "item list \<Rightarrow> item list" where
  "dedupe items = dedupe_loop {} [] items"

section \<open>tokenize\<close>

text \<open>The character class \<^verbatim>\<open>[a-zA-Z']\<close>.\<close>

definition word_char :: "char \<Rightarrow> bool" where
  "word_char c =
     ((CHR ''a'' \<le> c \<and> c \<le> CHR ''z'') \<or> (CHR ''A'' \<le> c \<and> c \<le> CHR ''Z'') \<or> c = CHR 0x27)"

text \<open>
  \<^verbatim>\<open>re.findall\<close> of a pattern \<^verbatim>\<open>[...]+\<close>: at a character of the class the match
  takes all the class characters that follow, and the search goes on behind the
  match; any other character is skipped.
\<close>

function findall_class :: "(char \<Rightarrow> bool) \<Rightarrow> string \<Rightarrow> string list" where
  "findall_class P [] = []"
| "findall_class P (c # cs) =
     (if P c then (c # takeWhile P cs) # findall_class P (dropWhile P cs)
      else findall_class P cs)"
  by pat_completeness auto
termination
  by (relation "measure (\<lambda>(P, s). length s)") (auto simp: le_imp_less_Suc length_dropWhile_le)

definition tokenize :: "string \<Rightarrow> string list" where
  "tokenize text =
     (let words = findall_class word_char (lower text)
      in filter (\<lambda>w. w \<notin> STOPWORDS \<and> length w > 2) words)"

section \<open>summarize_text\<close>

definition sentence_end :: "char \<Rightarrow> bool" where
  "sentence_end c = (c = CHR ''.'' \<or> c = CHR ''!'' \<or> c = CHR ''?'')"

text \<open>
  \<^verbatim>\<open>re.split(r"(?<=[.!?])\s+", text)\<close>: a match starts at a whitespace character
  that directly follows one of \<^verbatim>\<open>.!?\<close> and takes all the whitespace behind it; the
  pieces between the matches are returned, the piece after the last match too
  (also when it is empty). \<open>acc\<close> is the piece read so far.
\<close>

function split_sent :: "string \<Rightarrow> string \<Rightarrow> string list" where
  "split_sent acc [] = [acc]"
| "split_sent acc [c] = [acc @ [c]]"
| "split_sent acc (c # d # rest) =
     (if sentence_end c \<and> isspace d
      then (acc @ [c]) # split_sent [] (dropWhile isspace rest)
      else split_sent (acc @ [c]) (d # rest))"
  by pat_completeness auto
termination
  by (relation "measure (\<lambda>(acc, s). length s)") (auto simp: le_imp_less_Suc length_dropWhile_le less_SucI)

definition split_sentences :: "string \<Rightarrow> string list" where
  "split_sentences text = split_sent [] text"

definition summarize_text :: "string \<Rightarrow> int \<Rightarrow> string" where
  "summarize_text text max_sentences =
     (let sentences = split_sentences text
      in if int (length sentences) \<le> max_sentences then strip text
         else
           let words = tokenize text;
               freq = Counter words;
               scored = map (\<lambda>s. (sum_list (map (counter_get freq) (tokenize s)), s)) sentences;
               top = map snd (slice_to max_sentences (sorted_reverse scored))
           in join '' '' (map strip (filter (\<lambda>t. strip t \<noteq> []) top)))"

section \<open>sentiment_score\<close>

record sentiment_result =
  score :: int
  label :: string

fun sentiment_loop :: "int \<Rightarrow> string list \<Rightarrow> int" where
  "sentiment_loop sc [] = sc"
| "sentiment_loop sc (t # texts) =
     (let words = tokenize t;
          sc = sc + sum_list (map (\<lambda>w. 1) (filter (\<lambda>w. w \<in> POS_WORDS) words));
          sc = sc - sum_list (map (\<lambda>w. 1) (filter (\<lambda>w. w \<in> NEG_WORDS) words))
      in sentiment_loop sc texts)"

definition sentiment_score :: "string list \<Rightarrow> sentiment_result" where
  "sentiment_score texts =
     (let sc = sentiment_loop 0 texts;
          lb = (if sc \<ge> 2 then ''bullish'' else if sc \<le> - 2 then ''bearish'' else ''neutral'')
      in \<lparr>score = sc, label = lb\<rparr>)"

section \<open>build_summary_sentiment\<close>

text \<open>\<^verbatim>\<open>i['title']\<close> raises \<^verbatim>\<open>KeyError\<close> when the item has no such field.\<close>

datatype py_error = KeyError string

record summary_result =
  summary :: string
  sentiment :: sentiment_result

definition getitem :: "item \<Rightarrow> string \<Rightarrow> py_error + string" where
  "getitem i k = (case i k of None \<Rightarrow> Inl (KeyError k) | Some v \<Rightarrow> Inr v)"

text \<open>The two strings built per item: title, then summary, joined by \<open>sep\<close>.\<close>

definition title_summary :: "string \<Rightarrow> item \<Rightarrow> py_error + string" where
  "title_summary sep i =
     (case getitem i ''title'' of
        Inl e \<Rightarrow> Inl e
      | Inr t \<Rightarrow> (case getitem i ''summary'' of
                   Inl e \<Rightarrow> Inl e
                 | Inr s \<Rightarrow> Inr (t @ sep @ s)))"

text \<open>A list comprehension over the items stops at the first error.\<close>

fun comprehension :: "(item \<Rightarrow> py_error + string) \<Rightarrow> item list \<Rightarrow> py_error + string list" where
  "comprehension f [] = Inr []"
| "comprehension f (i # items) =
     (case f i of
        Inl e \<Rightarrow> Inl e
      | Inr s \<Rightarrow> (case comprehension f items of
                   Inl e \<Rightarrow> Inl e
                 | Inr ss \<Rightarrow> Inr (s # ss)))"

definition combined_text :: "item list \<Rightarrow> py_error + string" where
  "combined_text items =
     (case comprehension (title_summary ''. '') items of
        Inl e \<Rightarrow> Inl e
      | Inr parts \<Rightarrow> Inr (join '' '' parts))"

definition build_summary_sentiment :: "item list \<Rightarrow> py_error + summary_result" where
  "build_summary_sentiment items =
     (case combined_text items of
        Inl e \<Rightarrow> Inl e
      | Inr combined \<Rightarrow>
          (let summ = (if combined \<noteq> [] then summarize_text combined 3 else ''No items found.'')
           in case comprehension (title_summary '' '') items of
                Inl e \<Rightarrow> Inl e
              | Inr texts \<Rightarrow> Inr \<lparr>summary = summ, sentiment = sentiment_score texts\<rparr>))"

section \<open>Reading the specification\<close>

text \<open>
  The maximal runs of characters satisfying \<open>P\<close>, in the specification's words: every
  other character is a separator; the text is cut at each separator and the empty
  pieces are dropped.
\<close>

fun pieces :: "(char \<Rightarrow> bool) \<Rightarrow> string \<Rightarrow> string list" where
  "pieces sep [] = [[]]"
| "pieces sep (c # cs) =
     (if sep c then [] # pieces sep cs
      else (case pieces sep cs of [] \<Rightarrow> [[c]] | p # ps \<Rightarrow> (c # p) # ps))"

definition maximal_runs :: "(char \<Rightarrow> bool) \<Rightarrow> string \<Rightarrow> string list" where
  "maximal_runs P s = filter (\<lambda>p. p \<noteq> []) (pieces (\<lambda>c. \<not> P c) s)"

text \<open>
  The sentence boundaries of a text, in the specification's words: the places where
  one of \<^verbatim>\<open>.!?\<close> is followed by whitespace.
\<close>

fun boundaries :: "string \<Rightarrow> nat" where
  "boundaries (c # d # rest) =
     (if sentence_end c \<and> isspace d then 1 else 0) + boundaries (d # rest)"
| "boundaries _ = 0"



section \<open>Properties of dedupe\<close>

lemma dedupe_loop_out: "dedupe_loop seen out items = out @ dedupe_loop seen [] items"
proof (induction items arbitrary: seen out)
  case Nil
  show ?case by simp
next
  case (Cons it items)
  show ?case
    using Cons.IH [of seen out] Cons.IH [of "insert (item_key it) seen" "out @ [it]"]
      Cons.IH [of "insert (item_key it) seen" "[it]"]
    by (simp add: Let_def)
qed

lemma dedupe_loop_Cons:
  "dedupe_loop seen [] (it # items) =
     (if item_key it \<in> seen then dedupe_loop seen [] items
      else it # dedupe_loop (insert (item_key it) seen) [] items)"
  using dedupe_loop_out [of "insert (item_key it) seen" "[it]" items]
  by (simp add: Let_def)

declare dedupe_loop.simps(2) [simp del]

lemma dedupe_loop_keys:
  "item_key ` set (dedupe_loop seen [] items) = item_key ` set items - seen"
  by (induction items arbitrary: seen) (auto simp: dedupe_loop_Cons)

lemma dedupe_loop_distinct: "distinct (map item_key (dedupe_loop seen [] items))"
proof (induction items arbitrary: seen)
  case Nil
  show ?case by simp
next
  case (Cons it items)
  have "item_key it \<notin> item_key ` set (dedupe_loop (insert (item_key it) seen) [] items)"
    by (simp add: dedupe_loop_keys)
  with Cons show ?case by (simp add: dedupe_loop_Cons)
qed

lemma dedupe_loop_fixed:
  "distinct (map item_key ys) \<Longrightarrow> item_key ` set ys \<inter> seen = {} \<Longrightarrow> dedupe_loop seen [] ys = ys"
proof (induction ys arbitrary: seen)
  case Nil
  show ?case by simp
next
  case (Cons y ys)
  from Cons.prems have "item_key ` set ys \<inter> insert (item_key y) seen = {}" by auto
  with Cons show ?case by (auto simp: dedupe_loop_Cons)
qed

lemma dedupe_loop_subseq: "subseq (dedupe_loop seen [] items) items"
  by (induction items arbitrary: seen) (auto simp: dedupe_loop_Cons)

text \<open>
  The loop keeps exactly the positions whose key is neither in \<open>seen\<close> nor carried by
  an earlier item.
\<close>

lemma dedupe_loop_index:
  "dedupe_loop seen [] items =
     map (\<lambda>i. items ! i)
       (filter (\<lambda>i. item_key (items ! i) \<notin> seen \<union> item_key ` set (take i items)) [0..<length items])"
proof (induction items arbitrary: seen)
  case Nil
  show ?case by simp
next
  case (Cons it items)
  have upt: "[0..<length (it # items)] = 0 # map Suc [0..<length items]"
    by (simp add: upt_conv_Cons map_Suc_upt del: upt_Suc)
  show ?case
    unfolding upt
    by (auto simp add: dedupe_loop_Cons Cons.IH filter_map o_def
        intro!: arg_cong [where f = "map ((!) items)"] filter_cong)
qed

lemma length_filter_mono:
  "(\<And>x. P x \<Longrightarrow> Q x) \<Longrightarrow> length (filter P xs) \<le> length (filter Q xs)"
  by (induction xs) auto

lemma distinct_map_filter_le1:
  "distinct (map f xs) \<Longrightarrow> length (filter (\<lambda>x. f x = k) xs) \<le> 1"
  by (induction xs) (auto simp: filter_empty_conv image_iff)

lemma both_empty_key: "it ''link'' = Some [] \<and> it ''title'' = Some [] \<Longrightarrow> item_key it = Some []"
  by (simp add: item_key_def)

lemma item_key_link_or_title:
  "item_key it = (if it ''link'' = None \<or> it ''link'' = Some [] then it ''title'' else it ''link'')"
  by (simp add: item_key_def split: option.splits)

text \<open>
  C4. The identity key of an item is its link when that is present and non-empty,
  and its title otherwise. \<open>dedupe\<close> returns the items at exactly those positions of
  the input whose key no earlier item carries, in input order: the output is a
  subsequence of the input, no two of its items share a key, every key of the input
  is still there, and at most one item with an empty link and an empty title is kept.
\<close>

theorem dedupe_keeps_first_occurrences:
  "(\<forall>it. item_key it =
      (if it ''link'' = None \<or> it ''link'' = Some [] then it ''title'' else it ''link''))
   \<and> dedupe items =
     map (\<lambda>i. items ! i)
       (filter (\<lambda>i. item_key (items ! i) \<notin> item_key ` set (take i items)) [0..<length items])
   \<and> subseq (dedupe items) items
   \<and> distinct (map item_key (dedupe items))
   \<and> item_key ` set (dedupe items) = item_key ` set items
   \<and> length (filter (\<lambda>it. it ''link'' = Some [] \<and> it ''title'' = Some []) (dedupe items)) \<le> 1"
proof -
  have a: "dedupe items =
     map (\<lambda>i. items ! i)
       (filter (\<lambda>i. item_key (items ! i) \<notin> item_key ` set (take i items)) [0..<length items])"
    unfolding dedupe_def using dedupe_loop_index [of "{}" items] by simp
  have b: "subseq (dedupe items) items"
    unfolding dedupe_def by (rule dedupe_loop_subseq)
  have c: "distinct (map item_key (dedupe items))"
    unfolding dedupe_def by (rule dedupe_loop_distinct)
  have d: "item_key ` set (dedupe items) = item_key ` set items"
    unfolding dedupe_def by (simp add: dedupe_loop_keys)
  have "length (filter (\<lambda>it. it ''link'' = Some [] \<and> it ''title'' = Some []) (dedupe items))
      \<le> length (filter (\<lambda>it. item_key it = Some []) (dedupe items))"
    by (rule length_filter_mono) (simp add: both_empty_key)
  also have "\<dots> \<le> 1" using c by (rule distinct_map_filter_le1)
  finally have e:
    "length (filter (\<lambda>it. it ''link'' = Some [] \<and> it ''title'' = Some []) (dedupe items)) \<le> 1" .
  from a b c d e item_key_link_or_title show ?thesis by blast
qed

text \<open>
  C6. \<open>dedupe\<close> is idempotent: deduping a deduped list returns it unchanged.
\<close>

theorem dedupe_idempotent: "dedupe (dedupe x) = dedupe x"
  unfolding dedupe_def
  by (rule dedupe_loop_fixed) (simp_all add: dedupe_loop_distinct)

section \<open>Properties of build_summary_sentiment\<close>

text \<open>
  C3. On the empty list of items \<open>build_summary_sentiment\<close> returns the summary
  "No items found." with the sentiment of score 0 and label "neutral".
\<close>

theorem build_summary_sentiment_empty:
  "build_summary_sentiment [] =
     Inr \<lparr>summary = ''No items found.'', sentiment = \<lparr>score = 0, label = ''neutral''\<rparr>\<rparr>"
  by (simp add: build_summary_sentiment_def combined_text_def sentiment_score_def)

section \<open>Properties of tokenize\<close>

text \<open>
  C10. On the text of three apostrophes \<open>tokenize\<close> returns that text as its only
  token: a token without any letter.
\<close>

theorem tokenize_three_apostrophes:
  "tokenize [CHR 0x27, CHR 0x27, CHR 0x27] = [[CHR 0x27, CHR 0x27, CHR 0x27]]"
  by code_simp

lemma pieces_not_Nil: "pieces sep cs \<noteq> []"
  by (induction cs) (auto split: list.splits)

lemma pieces_hd: "hd (pieces sep cs) = takeWhile (\<lambda>c. \<not> sep c) cs"
  by (induction cs) (auto simp: pieces_not_Nil split: list.splits)

lemma pieces_tl:
  "filter (\<lambda>p. p \<noteq> []) (tl (pieces sep cs)) =
   filter (\<lambda>p. p \<noteq> []) (pieces sep (dropWhile (\<lambda>c. \<not> sep c) cs))"
  by (induction cs) (auto simp: pieces_not_Nil split: list.splits)

lemma findall_class_runs: "findall_class P s = maximal_runs P s"
proof (induction P s rule: findall_class.induct)
  case (1 P)
  show ?case by (simp add: maximal_runs_def)
next
  case (2 P c cs)
  then show ?case
    using pieces_hd [of "\<lambda>c. \<not> P c" cs] pieces_tl [of "\<lambda>c. \<not> P c" cs]
      pieces_not_Nil [of "\<lambda>c. \<not> P c" cs]
    by (auto simp add: maximal_runs_def split: list.splits)
qed

text \<open>
  C7. \<open>tokenize\<close> lowercases the text, takes the maximal runs of ASCII letters and
  apostrophes (every other character separates) and keeps, in order and with
  multiplicity, the runs that are no stopword and longer than 2 characters: no
  token is a stopword, none is shorter than 3 characters.
\<close>

theorem tokenize_maximal_runs:
  "tokenize text =
     filter (\<lambda>w. w \<notin> STOPWORDS \<and> 2 < length w) (maximal_runs word_char (lower text))
   \<and> (\<forall>w \<in> set (tokenize text). w \<notin> STOPWORDS \<and> \<not> length w < 3)"
  by (auto simp: tokenize_def findall_class_runs)

theorem tokenize_maximal_runs_example:
  "tokenize ''The Stock's up, it is A-OK!'' = [''stock's'']
   \<and> maximal_runs word_char (lower ''The Stock's up, it is A-OK!'')
       = [''the'', ''stock's'', ''up'', ''it'', ''is'', ''a'', ''ok'']
   \<and> ''stock's'' \<notin> STOPWORDS \<and> \<not> length ''stock's'' < 3"
proof -
  have e: "tokenize ''The Stock's up, it is A-OK!'' = [''stock's'']" by code_simp
  have r: "maximal_runs word_char (lower ''The Stock's up, it is A-OK!'')
       = [''the'', ''stock's'', ''up'', ''it'', ''is'', ''a'', ''ok'']" by code_simp
  have "\<forall>w \<in> set (tokenize ''The Stock's up, it is A-OK!''). w \<notin> STOPWORDS \<and> \<not> length w < 3"
    using tokenize_maximal_runs [of "''The Stock's up, it is A-OK!''"] by blast
  with e have q: "''stock's'' \<notin> STOPWORDS \<and> \<not> length ''stock's'' < 3"
    by (simp del: length_Cons)
  from e r q show ?thesis by blast
qed

section \<open>Properties of sentiment_score\<close>

lemma sum_ones: "sum_list (map (\<lambda>w. 1::int) xs) = int (length xs)"
  by (induction xs) auto

lemma sentiment_loop_total:
  "sentiment_loop sc texts =
     sc + int (length (filter (\<lambda>w. w \<in> POS_WORDS) (concat (map tokenize texts))))
        - int (length (filter (\<lambda>w. w \<in> NEG_WORDS) (concat (map tokenize texts))))"
  by (induction texts arbitrary: sc) (simp_all add: Let_def sum_ones)

text \<open>
  C1. The score is the number of occurrences of positive words among the tokens of
  all texts minus the number of occurrences of negative words; the label is
  "bullish" from 2 up, "bearish" from -2 down and "neutral" between, so 2 gives
  "bullish", -2 gives "bearish" and 0 gives "neutral".
\<close>

theorem sentiment_score_counts:
  "score (sentiment_score texts) =
       int (length (filter (\<lambda>w. w \<in> POS_WORDS) (concat (map tokenize texts))))
     - int (length (filter (\<lambda>w. w \<in> NEG_WORDS) (concat (map tokenize texts))))
   \<and> label (sentiment_score texts) =
       (if score (sentiment_score texts) \<ge> 2 then ''bullish''
        else if score (sentiment_score texts) \<le> - 2 then ''bearish'' else ''neutral'')
   \<and> (score (sentiment_score texts) = 2 \<longrightarrow> label (sentiment_score texts) = ''bullish'')
   \<and> (score (sentiment_score texts) = - 2 \<longrightarrow> label (sentiment_score texts) = ''bearish'')
   \<and> (score (sentiment_score texts) = 0 \<longrightarrow> label (sentiment_score texts) = ''neutral'')"
  by (simp add: sentiment_score_def Let_def sentiment_loop_total)

theorem sentiment_score_counts_example:
  "score (sentiment_score [''Company beats estimates'', ''Strong quarter'']) = 2
   \<and> label (sentiment_score [''Company beats estimates'', ''Strong quarter'']) = ''bullish''
   \<and> score (sentiment_score [''Shares plunge. Analysts downgrade'']) = - 2
   \<and> label (sentiment_score [''Shares plunge. Analysts downgrade'']) = ''bearish''
   \<and> score (sentiment_score [''Record growth'', ''Weak demand, big MISS'']) = 0
   \<and> label (sentiment_score [''Record growth'', ''Weak demand, big MISS'']) = ''neutral''"
proof -
  have a: "score (sentiment_score [''Company beats estimates'', ''Strong quarter'']) = 2"
    by code_simp
  have b: "score (sentiment_score [''Shares plunge. Analysts downgrade'']) = - 2"
    by code_simp
  have c: "score (sentiment_score [''Record growth'', ''Weak demand, big MISS'']) = 0"
    by code_simp
  from a sentiment_score_counts [of "[''Company beats estimates'', ''Strong quarter'']"]
  have a': "label (sentiment_score [''Company beats estimates'', ''Strong quarter'']) = ''bullish''"
    by blast
  from b sentiment_score_counts [of "[''Shares plunge. Analysts downgrade'']"]
  have b': "label (sentiment_score [''Shares plunge. Analysts downgrade'']) = ''bearish''"
    by blast
  from c sentiment_score_counts [of "[''Record growth'', ''Weak demand, big MISS'']"]
  have c': "label (sentiment_score [''Record growth'', ''Weak demand, big MISS'']) = ''neutral''"
    by blast
  from a a' b b' c c' show ?thesis by blast
qed

section \<open>Properties of summarize_text\<close>

lemma sentence_end_not_space: "sentence_end c \<Longrightarrow> \<not> isspace c"
  by (auto simp: sentence_end_def isspace_def)

lemma boundaries_skip_space:
  "isspace d \<Longrightarrow> boundaries (d # rest) = boundaries (dropWhile isspace rest)"
proof (induction rest arbitrary: d)
  case Nil
  show ?case by simp
next
  case (Cons e r)
  from Cons.prems have "\<not> sentence_end d" using sentence_end_not_space by blast
  then show ?case using Cons.IH [of e] by simp
qed

lemma split_sent_length: "length (split_sent acc s) = Suc (boundaries s)"
  by (induction acc s rule: split_sent.induct) (simp_all add: boundaries_skip_space)

text \<open>
  The split returns one piece more than there are places where one of \<^verbatim>\<open>.!?\<close> is
  followed by whitespace. When the text ends in such a place, the last piece is the
  empty string, and \<^verbatim>\<open>len(sentences)\<close> counts it.
\<close>

lemma summarize_text_pieces:
  "int (boundaries text) + 1 \<le> max_sentences \<Longrightarrow> summarize_text text max_sentences = strip text"
  by (simp add: summarize_text_def split_sentences_def split_sent_length)

text \<open>
  C5. A text with at most \<open>max_sentences\<close> sentences is to come back trimmed and
  otherwise unchanged. The text \<^verbatim>\<open>"One. Two. Three. "\<close> has three sentences, and its
  trimmed form is \<^verbatim>\<open>"One. Two. Three."\<close>. With \<open>max_sentences = 3\<close> the function does
  not return that: the split yields a fourth, empty piece after the final blank, the
  count 4 exceeds 3, the sentences are scored, and the result is
  \<^verbatim>\<open>"Two. Three. One."\<close>, the three sentences in score order. The last line of the
  function drops empty pieces from the summary; the count in its second line does
  not.
\<close>

theorem summarize_text_trailing_whitespace:
  "split_sentences ''One. Two. Three. '' = [''One.'', ''Two.'', ''Three.'', '''']
   \<and> strip ''One. Two. Three. '' = ''One. Two. Three.''
   \<and> summarize_text ''One. Two. Three. '' 3 = ''Two. Three. One.''"
  by code_simp

section \<open>The fallback summary of build_summary_sentiment\<close>

lemma title_summary_Inr:
  "title_summary sep i = Inr p \<Longrightarrow> length sep \<le> length p"
  by (auto simp: title_summary_def getitem_def split: option.splits)

lemma comprehension_parts:
  "comprehension (title_summary sep) items = Inr parts \<Longrightarrow>
     length parts = length items \<and> (\<forall>p \<in> set parts. length sep \<le> length p)"
proof (induction items arbitrary: parts)
  case Nil
  then show ?case by simp
next
  case (Cons i items)
  then show ?case
    by (auto split: sum.splits dest: title_summary_Inr)
qed

lemma comprehension_well_formed:
  "\<forall>i \<in> set items. i ''title'' \<noteq> None \<and> i ''summary'' \<noteq> None \<Longrightarrow>
   comprehension (title_summary sep) items =
     Inr (map (\<lambda>i. the (i ''title'') @ sep @ the (i ''summary'')) items)"
  by (induction items) (auto simp: title_summary_def getitem_def)

lemma join_not_Nil: "ps \<noteq> [] \<Longrightarrow> \<forall>p \<in> set ps. p \<noteq> [] \<Longrightarrow> join sep ps \<noteq> []"
  by (cases "(sep, ps)" rule: join.cases) auto

lemma length_join_ge: "sum_list (map length ps) \<le> length (join sep ps)"
  by (induction sep ps rule: join.induct) auto

lemma sum_list_length_ge:
  "\<forall>p \<in> set ps. n \<le> length p \<Longrightarrow> n * length ps \<le> sum_list (map length ps)"
  by (induction ps) auto

lemma combined_text_Nil_iff: "combined_text items = Inr [] \<longleftrightarrow> items = []"
proof
  assume a: "combined_text items = Inr []"
  then obtain parts where p: "comprehension (title_summary ''. '') items = Inr parts"
    and j: "join '' '' parts = []"
    by (auto simp: combined_text_def split: sum.splits)
  from comprehension_parts [OF p] have l: "length parts = length items"
    and n: "\<forall>p \<in> set parts. p \<noteq> []" by auto
  show "items = []"
  proof (rule ccontr)
    assume "items \<noteq> []"
    with l have "parts \<noteq> []" by auto
    from join_not_Nil [OF this n] j show False by blast
  qed
next
  assume "items = []"
  then show "combined_text items = Inr []" by (simp add: combined_text_def)
qed

text \<open>
  C9. The combined text is empty exactly for the empty list of items, so only
  there the summary is the fallback "No items found.". For items that all carry a
  title and a summary the combined text is the titles and summaries, each pair
  written "title. summary", joined by single spaces; it has at least two characters
  per item, and for a non-empty list the summary is \<open>summarize_text\<close> of the combined
  text with \<open>max_sentences = 3\<close>.
\<close>

theorem build_fallback_iff_empty:
  "(combined_text items = Inr [] \<longleftrightarrow> items = [])
   \<and> ((\<forall>i \<in> set items. i ''title'' \<noteq> None \<and> i ''summary'' \<noteq> None) \<longrightarrow>
        combined_text items =
          Inr (join '' '' (map (\<lambda>i. the (i ''title'') @ ''. '' @ the (i ''summary'')) items))
        \<and> 2 * length items
            \<le> length (join '' '' (map (\<lambda>i. the (i ''title'') @ ''. '' @ the (i ''summary'')) items))
        \<and> (items \<noteq> [] \<longrightarrow>
             build_summary_sentiment items =
               Inr \<lparr>summary =
                      summarize_text
                        (join '' '' (map (\<lambda>i. the (i ''title'') @ ''. '' @ the (i ''summary'')) items)) 3,
                    sentiment =
                      sentiment_score (map (\<lambda>i. the (i ''title'') @ '' '' @ the (i ''summary'')) items)\<rparr>))"
proof -
  let ?c = "join '' '' (map (\<lambda>i. the (i ''title'') @ ''. '' @ the (i ''summary'')) items)"
  {
    assume wf: "\<forall>i \<in> set items. i ''title'' \<noteq> None \<and> i ''summary'' \<noteq> None"
    have c: "combined_text items = Inr ?c"
      by (simp add: combined_text_def comprehension_well_formed [OF wf])
    have "2 * length items \<le> sum_list (map length (map (\<lambda>i. the (i ''title'') @ ''. '' @ the (i ''summary'')) items))"
      using sum_list_length_ge [of "map (\<lambda>i. the (i ''title'') @ ''. '' @ the (i ''summary'')) items" 2]
      by simp
    also have "\<dots> \<le> length ?c" by (rule length_join_ge)
    finally have l: "2 * length items \<le> length ?c" .
    have b: "items \<noteq> [] \<longrightarrow>
             build_summary_sentiment items =
               Inr \<lparr>summary = summarize_text ?c 3,
                    sentiment =
                      sentiment_score (map (\<lambda>i. the (i ''title'') @ '' '' @ the (i ''summary'')) items)\<rparr>"
    proof
      assume ne: "items \<noteq> []"
      with c combined_text_Nil_iff [of items] have "?c \<noteq> []" by auto
      then show "build_summary_sentiment items =
               Inr \<lparr>summary = summarize_text ?c 3,
                    sentiment =
                      sentiment_score (map (\<lambda>i. the (i ''title'') @ '' '' @ the (i ''summary'')) items)\<rparr>"
        by (simp add: build_summary_sentiment_def c comprehension_well_formed [OF wf])
    qed
    note c l b
  }
  with combined_text_Nil_iff [of items] show ?thesis by blast
qed

theorem build_fallback_iff_empty_example:
  "build_summary_sentiment [[''title'' \<mapsto> '''', ''summary'' \<mapsto> '''']] =
     Inr \<lparr>summary = ''.'', sentiment = \<lparr>score = 0, label = ''neutral''\<rparr>\<rparr>
   \<and> combined_text [[''title'' \<mapsto> '''', ''summary'' \<mapsto> '''']] = Inr ''. ''"
proof -
  let ?it = "[''title'' \<mapsto> '''', ''summary'' \<mapsto> '''']"
  have wf: "\<forall>i \<in> set [?it]. i ''title'' \<noteq> None \<and> i ''summary'' \<noteq> None" by simp
  have s: "summarize_text ''. '' 3 = ''.''" by code_simp
  have t: "sentiment_score ['' ''] = \<lparr>score = 0, label = ''neutral''\<rparr>" by code_simp
  from build_fallback_iff_empty [of "[?it]"] wf s t show ?thesis by simp
qed

section \<open>Properties of normalize_text\<close>

lemma findall_words:
  "w \<in> set (findall_class P s) \<Longrightarrow> w \<noteq> [] \<and> (\<forall>c \<in> set w. P c)"
proof (induction P s rule: findall_class.induct)
  case (1 P)
  then show ?case by simp
next
  case (2 P c cs)
  have tw: "\<And>x. x \<in> set (takeWhile P cs) \<Longrightarrow> P x"
    by (rule set_takeWhileD [THEN conjunct2])
  show ?case
  proof (cases "P c")
    case True
    with 2(3) have "w = c # takeWhile P cs \<or> w \<in> set (findall_class P (dropWhile P cs))"
      by simp
    then show ?thesis
    proof
      assume "w = c # takeWhile P cs"
      with True tw show ?thesis by auto
    next
      assume "w \<in> set (findall_class P (dropWhile P cs))"
      with 2(1) [OF True] show ?thesis .
    qed
  next
    case False
    with 2(3) have "w \<in> set (findall_class P cs)" by simp
    with 2(2) [OF False] show ?thesis .
  qed
qed

lemma findall_skip_space:
  "findall_class (\<lambda>c. \<not> isspace c) (dropWhile isspace s) = findall_class (\<lambda>c. \<not> isspace c) s"
  by (induction s) auto

lemma findall_Nil_iff: "findall_class P s = [] \<longleftrightarrow> (\<forall>c \<in> set s. \<not> P c)"
  by (induction P s rule: findall_class.induct) auto

lemma join_Cons_Cons: "join sep ((c # w) # ws) = c # join sep (w # ws)"
  by (cases ws) auto

lemma last_dropWhile: "dropWhile P xs \<noteq> [] \<Longrightarrow> last (dropWhile P xs) = last xs"
  by (induction xs) (auto split: if_splits)

lemma join_hd: "ws \<noteq> [] \<Longrightarrow> hd ws \<noteq> [] \<Longrightarrow> hd (join sep ws) = hd (hd ws)"
  by (cases "(sep, ws)" rule: join.cases) auto

lemma join_last_not_Nil: "ws \<noteq> [] \<Longrightarrow> last ws \<noteq> [] \<Longrightarrow> join sep ws \<noteq> []"
  by (induction sep ws rule: join.induct) auto

lemma join_last: "ws \<noteq> [] \<Longrightarrow> last ws \<noteq> [] \<Longrightarrow> last (join sep ws) = last (last ws)"
proof (induction sep ws rule: join.induct)
  case (3 sep x y ys)
  from 3(3) have l: "last (y # ys) \<noteq> []" by simp
  then have "join sep (y # ys) \<noteq> []" by (intro join_last_not_Nil) simp_all
  with 3(1) l show ?case by simp
qed simp_all

lemma isspace_space: "isspace CHR '' ''"
  by (simp add: isspace_def)

lemma strip_core:
  assumes a: "\<forall>c \<in> set a. isspace c" and b: "\<forall>c \<in> set b. isspace c"
    and j: "j = [] \<or> (\<not> isspace (hd j) \<and> \<not> isspace (last j))"
  shows "strip (a @ j @ b) = j"
proof (cases "j = []")
  case True
  from a b have d0: "dropWhile isspace (a @ [] @ b) = []" by (simp add: dropWhile_eq_Nil_conv)
  show ?thesis unfolding strip_def True d0 by simp
next
  case False
  with j have h: "\<not> isspace (hd j)" and l: "\<not> isspace (last j)" by auto
  from False l have r: "dropWhile isspace (rev j) = rev j" by (cases j rule: rev_cases) auto
  have "dropWhile isspace (a @ j @ b) = dropWhile isspace (j @ b)"
    using a by (simp add: dropWhile_append2)
  also have "\<dots> = j @ b" using False h by (cases j) auto
  finally have d: "dropWhile isspace (a @ j @ b) = j @ b" .
  have "dropWhile isspace (rev b @ rev j) = dropWhile isspace (rev j)"
    by (rule dropWhile_append2) (use b in auto)
  with r d show ?thesis by (simp add: strip_def)
qed

lemma join_words_ends:
  assumes w: "\<forall>w \<in> set ws. w \<noteq> [] \<and> (\<forall>c \<in> set w. \<not> isspace c)"
  shows "join sep ws = [] \<or> (\<not> isspace (hd (join sep ws)) \<and> \<not> isspace (last (join sep ws)))"
proof (cases "ws = []")
  case True
  then show ?thesis by simp
next
  case False
  then have h: "hd ws \<in> set ws" and l: "last ws \<in> set ws" by simp_all
  from w h have h1: "hd ws \<noteq> []" and h0: "\<forall>c \<in> set (hd ws). \<not> isspace c" by blast+
  from w l have l1: "last ws \<noteq> []" and l0: "\<forall>c \<in> set (last ws). \<not> isspace c" by blast+
  from h1 h0 have h2: "\<not> isspace (hd (hd ws))" using hd_in_set by blast
  from l1 l0 have l2: "\<not> isspace (last (last ws))" using last_in_set by blast
  from join_hd [OF False h1, of sep] join_last [OF False l1, of sep] h2 l2
  show ?thesis by simp
qed

lemma sub_ws_shape:
  "sub_ws s =
     (if s \<noteq> [] \<and> isspace (hd s) then '' '' else [])
     @ join '' '' (findall_class (\<lambda>c. \<not> isspace c) s)
     @ (if findall_class (\<lambda>c. \<not> isspace c) s \<noteq> [] \<and> isspace (last s) then '' '' else [])"
proof (induction s rule: sub_ws.induct)
  case 1
  show ?case by simp
next
  case (2 c cs)
  let ?F = "findall_class (\<lambda>c. \<not> isspace c)"
  show ?case
  proof (cases "isspace c")
    case True
    let ?r = "dropWhile isspace cs"
    have lead: "\<not> (?r \<noteq> [] \<and> isspace (hd ?r))"
      using hd_dropWhile [of isspace cs] by blast
    have F: "?F ?r = ?F cs" by (rule findall_skip_space)
    have Fc: "?F (c # cs) = ?F cs" using True by simp
    have sub: "sub_ws (c # cs) = CHR '' '' # sub_ws ?r" using True by simp
    have ih: "sub_ws ?r = join '' '' (?F cs) @ (if ?F cs \<noteq> [] \<and> isspace (last ?r) then '' '' else [])"
      using 2(1) [OF True] lead F by simp
    have tl: "?F cs \<noteq> [] \<Longrightarrow> last ?r = last (c # cs)"
    proof -
      assume "?F cs \<noteq> []"
      then have "?r \<noteq> []" using findall_Nil_iff [of "\<lambda>c. \<not> isspace c" cs] by auto
      then show ?thesis using last_dropWhile [of isspace cs] by auto
    qed
    show ?thesis
    proof (cases "?F cs = []")
      case e: True
      with sub ih Fc True show ?thesis by simp
    next
      case ne: False
      from tl [OF ne] sub ih Fc True ne show ?thesis by simp
    qed
  next
    case False
    note ih = 2(2) [OF False]
    have sub: "sub_ws (c # cs) = c # sub_ws cs" using False by simp
    show ?thesis
    proof (cases cs)
      case Nil
      with False show ?thesis by simp
    next
      case (Cons d ds)
      then have ne: "cs \<noteq> []" and hd: "hd cs = d" and lst: "last (c # cs) = last cs" by simp_all
      show ?thesis
      proof (cases "isspace d")
        case True
        have Fc: "?F (c # cs) = [c] # ?F cs" using False True Cons by simp
        from True hd have sp: "isspace (hd cs)" by simp
        show ?thesis
        proof (cases "?F cs = []")
          case e: True
          then have "\<forall>c \<in> set cs. isspace c" using findall_Nil_iff [of "\<lambda>c. \<not> isspace c" cs] by auto
          moreover from ne have "last cs \<in> set cs" by simp
          ultimately have "isspace (last cs)" by blast
          with sub ih Fc e ne sp False show ?thesis by simp
        next
          case nF: False
          then obtain w ws where ww: "?F cs = w # ws" by (cases "?F cs") auto
          from sub ih Fc ww ne sp False show ?thesis by simp
        qed
      next
        case nd: False
        have Fcs: "?F cs = (d # takeWhile (\<lambda>c. \<not> isspace c) ds) # ?F (dropWhile (\<lambda>c. \<not> isspace c) ds)"
          using nd Cons by simp
        have Fc: "?F (c # cs) = (c # d # takeWhile (\<lambda>c. \<not> isspace c) ds) # ?F (dropWhile (\<lambda>c. \<not> isspace c) ds)"
          using False nd Cons by simp
        from nd hd have nsp: "\<not> isspace (hd cs)" by simp
        from sub ih Fc Fcs ne nsp False show ?thesis by (simp add: join_Cons_Cons)
      qed
    qed
  qed
qed

text \<open>
  C8. \<open>normalize_text\<close> returns a string for every input: the empty string for an
  absent text, and for a text its maximal runs of non-whitespace characters joined
  by single spaces, so every run of whitespace inside has become one space and
  none is left at the ends.
\<close>

theorem normalize_text_words:
  "normalize_text None = []
   \<and> normalize_text (Some s) = join '' '' (maximal_runs (\<lambda>c. \<not> isspace c) s)"
proof -
  let ?F = "findall_class (\<lambda>c. \<not> isspace c)"
  have e: "join '' '' (?F s) = [] \<or>
      (\<not> isspace (hd (join '' '' (?F s))) \<and> \<not> isspace (last (join '' '' (?F s))))"
    by (rule join_words_ends) (use findall_words in blast)
  have "strip (sub_ws s) = join '' '' (?F s)"
    by (subst sub_ws_shape, rule strip_core) (use e in \<open>simp_all add: isspace_space\<close>)
  then show ?thesis
    by (simp add: normalize_text_def strip_def findall_class_runs)
qed

theorem normalize_text_words_example:
  "normalize_text (Some ('' Daily'' @ [CHR 0x09, CHR 0x0A] @ ''news  '')) = ''Daily news''
   \<and> maximal_runs (\<lambda>c. \<not> isspace c) ('' Daily'' @ [CHR 0x09, CHR 0x0A] @ ''news  '')
       = [''Daily'', ''news'']"
proof -
  have r: "maximal_runs (\<lambda>c. \<not> isspace c) ('' Daily'' @ [CHR 0x09, CHR 0x0A] @ ''news  '')
       = [''Daily'', ''news'']"
    by code_simp
  from normalize_text_words [of "'' Daily'' @ [CHR 0x09, CHR 0x0A] @ ''news  ''"] r
  show ?thesis by simp
qed

section \<open>The ranking of summarize_text\<close>













end
